theory Spec2Isabelle
  imports Main "HOL-Library.Sublist"
begin

section \<open>Python primitives used by whitelist.py\<close>

text \<open>
  The substring test on Python strings, \<^verbatim>\<open>sub in s\<close>: true when \<open>sub\<close> occurs in
  \<open>s\<close> as a contiguous run of characters, at any position. The empty string occurs in
  every string.
\<close>

fun str_in :: "string \<Rightarrow> string \<Rightarrow> bool" where
  "str_in sub [] = (sub = [])"
| "str_in sub (c # cs) = (prefix sub (c # cs) \<or> str_in sub cs)"

text \<open>
  \<^verbatim>\<open>os.path.commonprefix([c1, c2])\<close>: the longest string that is a prefix of both
  arguments, compared character by character (no notion of path segments).
\<close>

fun commonprefix :: "string \<Rightarrow> string \<Rightarrow> string" where
  "commonprefix [] s2 = []"
| "commonprefix (c # s1) [] = []"
| "commonprefix (c # s1) (d # s2) = (if c = d then c # commonprefix s1 s2 else [])"

text \<open>
  \<^verbatim>\<open>itertools.combinations(xs, 2)\<close>: the pairs of elements at positions \<open>i < j\<close>,
  in lexicographic order of the positions.
\<close>

fun combinations2 :: "'a list \<Rightarrow> ('a \<times> 'a) list" where
  "combinations2 [] = []"
| "combinations2 (x # xs) = map (Pair x) xs @ combinations2 xs"

text \<open>
  A Python \<^verbatim>\<open>set\<close> is iterated in an order the language does not fix. The functions
  below that loop over a set take the iteration as a parameter \<open>iter\<close>, which lists a set;
  \<open>set_iteration iter A\<close> says that \<open>iter\<close> visits every element of \<open>A\<close> once.
\<close>

type_synonym set_iter = "string set \<Rightarrow> string list"

definition set_iteration :: "set_iter \<Rightarrow> string set \<Rightarrow> bool" where
  "set_iteration iter A \<longleftrightarrow> set (iter A) = A \<and> distinct (iter A)"

text \<open>
  An iteration that visits the elements in the order of a reference list \<open>base\<close>;
  it is a set iteration for every set of elements of \<open>base\<close>.
\<close>

definition iter_along :: "string list \<Rightarrow> set_iter" where
  "iter_along base A = [x \<leftarrow> remdups base. x \<in> A]"


section \<open>Logging\<close>

text \<open>
  The records written through \<^verbatim>\<open>logging\<close>, with their level and what the message
  reports. No call of the module raises; the log is returned next to the result.
\<close>

datatype level = DEBUG | WARNING

datatype message =
    NoFieldsToSelect "string list" "string list"
  | FieldsToDrop "string set"
  | TimeToForceCalculation
  | FieldNotFound string
  | RootElementsFound "string set"

type_synonym log = "(level \<times> message) list"


section \<open>Collaborators outside whitelist.py\<close>

text \<open>
  A \<^verbatim>\<open>StructType\<close> is read by whitelist.py through \<^verbatim>\<open>SparkSchemaUtility\<close>
  only; it is represented by the dotted paths that the utility reports for it.
\<close>

datatype struct_type = StructType (paths: "string list")

text \<open>
  Modelled from the spec: \<^verbatim>\<open>SparkSchemaUtility.flatten_schema\<close> (module
  nestedfunctions.spark_schema.utility) is not among the sources. The spec gives it as
  the flat collection of all dotted field paths of the schema.
\<close>

definition flatten_schema :: "struct_type \<Rightarrow> string list" where
  "flatten_schema schema = paths schema"

text \<open>
  Modelled from the spec: \<^verbatim>\<open>SparkSchemaUtility.is_column_exist\<close> is not among the
  sources. The spec gives it as the membership test of a path in the flattened schema.
\<close>

definition is_column_exist :: "struct_type \<Rightarrow> string \<Rightarrow> bool" where
  "is_column_exist schema field \<longleftrightarrow> field \<in> set (flatten_schema schema)"

text \<open>
  Modelled from the spec: \<^verbatim>\<open>distinct\<close> (module
  nestedfunctions.utils.iterators.iterator_utils) is not among the sources. The spec gives
  it as de-duplication that preserves the order of first occurrence.
\<close>

fun distinct_from :: "'a list \<Rightarrow> 'a list \<Rightarrow> 'a list" where
  "distinct_from seen [] = []"
| "distinct_from seen (x # xs) =
     (if x \<in> set seen then distinct_from seen xs else x # distinct_from (x # seen) xs)"

definition distinct_list :: "'a list \<Rightarrow> 'a list" where
  "distinct_list xs = distinct_from [] xs"

text \<open>
  A \<^verbatim>\<open>DataFrame\<close> of the engine, as far as the module observes and builds it: its
  schema, its number of rows, and the engine operations applied so far, oldest first.
\<close>

datatype engine_op = Limit nat | DropField string | Cache

record dataframe =
  df_schema :: struct_type
  df_rows :: nat
  df_plan :: "engine_op list"

text \<open>\<^verbatim>\<open>df.limit(n)\<close>: at most \<open>n\<close> rows, same schema.\<close>

definition limit :: "dataframe \<Rightarrow> nat \<Rightarrow> dataframe" where
  "limit df n = df\<lparr>df_rows := min n (df_rows df), df_plan := df_plan df @ [Limit n]\<rparr>"

text \<open>\<^verbatim>\<open>df.cache()\<close>: same schema and rows.\<close>

definition cache :: "dataframe \<Rightarrow> dataframe" where
  "cache df = df\<lparr>df_plan := df_plan df @ [Cache]\<rparr>"

text \<open>
  Modelled from the spec: \<^verbatim>\<open>drop\<close> (module nestedfunctions.functions.drop) is not
  among the sources. The spec gives it as the engine capability that returns a data frame
  without the field at the dotted path, nested fields included; rows are kept.
\<close>

definition drop_field :: "dataframe \<Rightarrow> string \<Rightarrow> dataframe" where
  "drop_field df field =
     df\<lparr>df_schema := StructType [p \<leftarrow> flatten_schema (df_schema df).
                                    p \<noteq> field \<and> \<not> prefix (field @ ''.'') p],
        df_plan := df_plan df @ [DropField field]\<rparr>"


section \<open>whitelist.py\<close>

definition NUMBER_OF_ITERATIONS_TO_FORCE_CATALYST_FLUSH :: nat where
  "NUMBER_OF_ITERATIONS_TO_FORCE_CATALYST_FLUSH = 10"

definition force_calculation :: "dataframe \<Rightarrow> dataframe" where
  "force_calculation df = cache df"

subsection \<open>Root collapse\<close>

text \<open>
  The loop of \<^verbatim>\<open>__replace_elements_with_root\<close>, with its two local variables
  \<open>root_added\<close> and \<open>res\<close>.
\<close>

fun replace_loop :: "string \<Rightarrow> string list \<Rightarrow> bool \<Rightarrow> string list \<Rightarrow> string list" where
  "replace_loop root [] root_added res = res"
| "replace_loop root (f # fs) root_added res =
     (if str_in root f
      then (if \<not> root_added then replace_loop root fs True (res @ [root])
            else replace_loop root fs root_added res)
      else replace_loop root fs root_added (res @ [f]))"

definition replace_elements_with_root :: "string list \<Rightarrow> string \<Rightarrow> string list" where
  "replace_elements_with_root flds root = replace_loop root flds False []"

text \<open>
  \<^verbatim>\<open>__replace_elements_with_roots\<close>: one pass per root, in the order \<open>roots\<close> in which
  the set of roots is iterated.
\<close>

fun replace_elements_with_roots :: "string list \<Rightarrow> string list \<Rightarrow> string list" where
  "replace_elements_with_roots res [] = res"
| "replace_elements_with_roots res (root # roots) =
     replace_elements_with_roots (replace_elements_with_root res root) roots"

definition common_elements :: "string list \<Rightarrow> string set" where
  "common_elements flds =
     set [commonprefix c1 c2. (c1, c2) \<leftarrow> combinations2 flds, commonprefix c1 c2 \<noteq> '''']"

definition root_elements :: "string list \<Rightarrow> string set" where
  "root_elements flds = set [f \<leftarrow> flds. f \<in> common_elements flds]"

definition filter_only_parents_fields :: "set_iter \<Rightarrow> string list \<Rightarrow> log \<times> string list" where
  "filter_only_parents_fields iter flds =
     (let roots = root_elements flds;
          lg = (if roots \<noteq> {} then [(WARNING, RootElementsFound roots)] else [])
      in (lg, replace_elements_with_roots flds (iter roots)))"

subsection \<open>WhitelistProcessor\<close>

record whitelist_processor =
  whitelist_columns :: "string list"

text \<open>
  \<^verbatim>\<open>is_field_need_to_be_dropped\<close>; \<open>parent_fields\<close> is the set of parents as iterated.
\<close>

fun is_field_need_to_be_dropped :: "string \<Rightarrow> string list \<Rightarrow> bool" where
  "is_field_need_to_be_dropped field [] = True"
| "is_field_need_to_be_dropped field (parent_field # parent_fields) =
     (if str_in parent_field field then False
      else is_field_need_to_be_dropped field parent_fields)"

text \<open>The loop of \<^verbatim>\<open>__filter_only_existing_fields\<close>, with the log and \<open>res\<close>.\<close>

fun existing_loop :: "struct_type \<Rightarrow> string list \<Rightarrow> log \<times> string list \<Rightarrow> log \<times> string list" where
  "existing_loop schema [] (lg, res) = (lg, res)"
| "existing_loop schema (field # flds) (lg, res) =
     (if is_column_exist schema field
      then existing_loop schema flds (lg, res @ [field])
      else existing_loop schema flds (lg @ [(WARNING, FieldNotFound field)], res))"

definition filter_only_existing_fields :: "struct_type \<Rightarrow> string list \<Rightarrow> log \<times> string list" where
  "filter_only_existing_fields schema flds =
     existing_loop schema (distinct_list flds) ([], [])"

text \<open>
  The local \<open>only_existing_columns\<close> of \<^verbatim>\<open>find_fields_to_drop\<close> and the keep-roots
  \<open>whitelist_parent_fields\<close>, the set built from the result of
  \<^verbatim>\<open>filter_only_parents_fields\<close>.
\<close>

definition only_existing_columns :: "whitelist_processor \<Rightarrow> dataframe \<Rightarrow> string list" where
  "only_existing_columns self df =
     snd (filter_only_existing_fields (df_schema df) (whitelist_columns self))"

definition whitelist_parent_fields :: "set_iter \<Rightarrow> whitelist_processor \<Rightarrow> dataframe \<Rightarrow> string set" where
  "whitelist_parent_fields iter self df =
     set (snd (filter_only_parents_fields iter (only_existing_columns self df)))"

text \<open>The set comprehension of \<^verbatim>\<open>find_fields_to_drop\<close>.\<close>

definition fields_to_drop_of :: "set_iter \<Rightarrow> string list \<Rightarrow> string set \<Rightarrow> string set" where
  "fields_to_drop_of iter all_fields parents =
     set [field \<leftarrow> all_fields. is_field_need_to_be_dropped field (iter parents)]"

definition find_fields_to_drop :: "set_iter \<Rightarrow> whitelist_processor \<Rightarrow> dataframe \<Rightarrow> log \<times> string set" where
  "find_fields_to_drop iter self df =
     (let (lg1, only_existing_columns) =
            filter_only_existing_fields (df_schema df) (whitelist_columns self);
          (lg2, parents) = filter_only_parents_fields iter only_existing_columns;
          all_fields = flatten_schema (df_schema df)
      in (lg1 @ lg2, fields_to_drop_of iter all_fields (set parents)))"

text \<open>
  The loop of \<^verbatim>\<open>drop_fields\<close> over \<^verbatim>\<open>enumerate(fields_to_drop)\<close>; \<open>idx\<close> is the
  index of the next element.
\<close>

fun drop_loop :: "nat \<Rightarrow> string list \<Rightarrow> log \<times> dataframe \<Rightarrow> log \<times> dataframe" where
  "drop_loop idx [] (lg, df) = (lg, df)"
| "drop_loop idx (field_to_drop # rest) (lg, df) =
     (let df1 = drop_field df field_to_drop
      in if (idx + 1) mod NUMBER_OF_ITERATIONS_TO_FORCE_CATALYST_FLUSH = 0
         then drop_loop (idx + 1) rest
                (lg @ [(DEBUG, TimeToForceCalculation)], force_calculation df1)
         else drop_loop (idx + 1) rest (lg, df1))"

text \<open>\<^verbatim>\<open>drop_fields\<close>; \<open>fields_to_drop\<close> is the drop-set as iterated.\<close>

definition drop_fields :: "dataframe \<Rightarrow> string list \<Rightarrow> log \<times> dataframe" where
  "drop_fields df fields_to_drop = drop_loop 0 fields_to_drop ([], df)"

definition no_fields_to_select :: "whitelist_processor \<Rightarrow> dataframe \<Rightarrow> bool" where
  "no_fields_to_select self df =
     (let flattened_fields = set (flatten_schema (df_schema df))
      in flattened_fields - set (whitelist_columns self) = flattened_fields)"

definition process :: "set_iter \<Rightarrow> whitelist_processor \<Rightarrow> dataframe \<Rightarrow> log \<times> dataframe" where
  "process iter self df =
     (if no_fields_to_select self df
      then ([(WARNING, NoFieldsToSelect (whitelist_columns self)
                         (flatten_schema (df_schema df)))],
            limit df 0)
      else (let (lg1, fields_to_drop) = find_fields_to_drop iter self df;
                (lg2, df1) = drop_fields df (iter fields_to_drop)
            in (lg1 @ [(DEBUG, FieldsToDrop fields_to_drop)] @ lg2, df1)))"

text \<open>
  \<open>iterates_for iter self df\<close>: \<open>iter\<close> is a set iteration on the two sets that
  \<^verbatim>\<open>find_fields_to_drop\<close> loops over for this processor and data frame.
\<close>

definition iterates_for :: "set_iter \<Rightarrow> whitelist_processor \<Rightarrow> dataframe \<Rightarrow> bool" where
  "iterates_for iter self df \<longleftrightarrow>
     set_iteration iter (root_elements (only_existing_columns self df)) \<and>
     set_iteration iter (whitelist_parent_fields iter self df)"

definition whitelist :: "set_iter \<Rightarrow> dataframe \<Rightarrow> string list \<Rightarrow> log \<times> dataframe" where
  "whitelist iter df flds = process iter \<lparr>whitelist_columns = flds\<rparr> df"


section \<open>Specification-side definitions\<close>


text \<open>
  The set of flattened paths that have a kept root as a prefix (the wording of the
  invariant in the data model of the spec), and the set of flattened paths in which a kept
  root occurs as a substring (the test that the code applies).
\<close>

definition prefix_matched :: "string list \<Rightarrow> string set \<Rightarrow> string set" where
  "prefix_matched all_fields roots = {p \<in> set all_fields. \<exists>k \<in> roots. prefix k p}"

definition substring_matched :: "string list \<Rightarrow> string set \<Rightarrow> string set" where
  "substring_matched all_fields roots = {p \<in> set all_fields. \<exists>k \<in> roots. str_in k p}"

text \<open>
  The requested paths that are unrelated to a root in the sense of the spec: those that do
  not have the root as a prefix.
\<close>

definition unrelated_to :: "string \<Rightarrow> string list \<Rightarrow> string list" where
  "unrelated_to root flds = [f \<leftarrow> flds. \<not> prefix root f]"

text \<open>
  The engine operations that the spec prescribes for a list of paths to drop: one drop per
  path, in order, and a forced materialization after every full batch of ten drops.
\<close>

function batched_ops :: "string list \<Rightarrow> engine_op list" where
  "batched_ops flds =
     (if length flds < 10 then map DropField flds
      else map DropField (take 10 flds) @ Cache # batched_ops (drop 10 flds))"
  by pat_completeness auto
termination
  by (relation "measure length") auto

declare batched_ops.simps [simp del]

text \<open>
  The engine operations issued by the loop of \<^verbatim>\<open>drop_fields\<close> from the index \<open>idx\<close> on.
\<close>

fun ops_from :: "nat \<Rightarrow> string list \<Rightarrow> engine_op list" where
  "ops_from idx [] = []"
| "ops_from idx (f # fs) =
     DropField f # (if (idx + 1) mod 10 = 0 then [Cache] else []) @ ops_from (idx + 1) fs"


section \<open>Scenarios\<close>


text \<open>
  The scenario of the spec: a schema with the flattened paths \<open>a, a.b, a.c, d\<close>.
\<close>

definition df_abcd :: dataframe where
  "df_abcd = \<lparr>df_schema = StructType [''a'', ''a.b'', ''a.c'', ''d''], df_rows = 3, df_plan = []\<rparr>"

definition wl_ab_d :: whitelist_processor where
  "wl_ab_d = \<lparr>whitelist_columns = [''a.b'', ''d'']\<rparr>"

definition wl_zz :: whitelist_processor where
  "wl_zz = \<lparr>whitelist_columns = [''zz'']\<rparr>"

definition iter_abcd :: set_iter where
  "iter_abcd = iter_along [''a'', ''a.b'', ''a.c'', ''d'']"

text \<open>
  The same schema as the leaf paths alone, and the schema \<open>{a: {b}}\<close> with the whitelist
  \<open>[a.b]\<close>.
\<close>

definition df_leaves :: dataframe where
  "df_leaves = \<lparr>df_schema = StructType [''a.b'', ''a.c'', ''d''], df_rows = 3, df_plan = []\<rparr>"



text \<open>
  Two top-level fields, one of which contains the name of the other.
\<close>

definition df_a_ba :: dataframe where
  "df_a_ba = \<lparr>df_schema = StructType [''a'', ''ba''], df_rows = 3, df_plan = []\<rparr>"

definition wl_a :: whitelist_processor where
  "wl_a = \<lparr>whitelist_columns = [''a'']\<rparr>"

definition iter_a_ba :: set_iter where
  "iter_a_ba = iter_along [''a'', ''ba'']"

text \<open>
  A nested struct \<open>a.b\<close> with a field \<open>c\<close>, requested together with its parent.
\<close>

definition df_nested :: dataframe where
  "df_nested = \<lparr>df_schema = StructType [''a'', ''a.b'', ''a.b.c'', ''d''], df_rows = 3, df_plan = []\<rparr>"

definition wl_nested :: whitelist_processor where
  "wl_nested = \<lparr>whitelist_columns = [''a.b'', ''a.b.c'', ''d'']\<rparr>"

definition wl_ab_abc :: whitelist_processor where
  "wl_ab_abc = \<lparr>whitelist_columns = [''a.b'', ''a.b.c'']\<rparr>"

definition iter_nested :: set_iter where
  "iter_nested = iter_along [''a'', ''a.b'', ''a.b.c'', ''d'']"

text \<open>
  Top-level names of which one is a character-level prefix of another.
\<close>

definition df_loose :: dataframe where
  "df_loose = \<lparr>df_schema = StructType [''xab'', ''ab'', ''abc'', ''cd''], df_rows = 3, df_plan = []\<rparr>"

definition wl_loose :: whitelist_processor where
  "wl_loose = \<lparr>whitelist_columns = [''ab'', ''abc'']\<rparr>"

definition iter_loose :: set_iter where
  "iter_loose = iter_along [''xab'', ''ab'', ''abc'', ''cd'']"

text \<open>
  Two roots, and two orders in which the set of roots may be iterated.
\<close>

definition df_two_roots :: dataframe where
  "df_two_roots = \<lparr>df_schema = StructType [''ab'', ''a'', ''b'', ''a1'', ''b1'', ''c''], df_rows = 3, df_plan = []\<rparr>"

definition wl_two_roots :: whitelist_processor where
  "wl_two_roots = \<lparr>whitelist_columns = [''ab'', ''a'', ''b'', ''a1'', ''b1'']\<rparr>"

definition iter_forward :: set_iter where
  "iter_forward = iter_along [''ab'', ''a'', ''b'', ''a1'', ''b1'', ''c'']"

definition iter_backward :: set_iter where
  "iter_backward = iter_along [''c'', ''b1'', ''a1'', ''b'', ''a'', ''ab'']"

text \<open>
  Thirteen fields of which one is kept, so that twelve are dropped.
\<close>

definition wl_none :: whitelist_processor where
  "wl_none = \<lparr>whitelist_columns = [''k'']\<rparr>"

definition df_wide :: dataframe where
  "df_wide = \<lparr>df_schema = StructType [''k'', ''c01'', ''c02'', ''c03'', ''c04'', ''c05'', ''c06'',
       ''c07'', ''c08'', ''c09'', ''c10'', ''c11'', ''c12''], df_rows = 3, df_plan = []\<rparr>"

definition iter_wide :: set_iter where
  "iter_wide = iter_along (flatten_schema (df_schema df_wide))"


section \<open>Properties of the primitives and of the loops\<close>

lemma set_iteration_iter_along:
  "A \<subseteq> set base \<Longrightarrow> set_iteration (iter_along base) A"
  by (auto simp: set_iteration_def iter_along_def)

lemma str_in_sublist: "str_in sub s \<longleftrightarrow> sublist sub s"
  by (induction s) (auto simp: sublist_Cons_right)

lemma str_in_iff: "str_in sub s \<longleftrightarrow> (\<exists>u v. s = u @ sub @ v)"
  by (simp add: str_in_sublist sublist_def)

lemma str_in_refl: "str_in s s"
  by (simp add: str_in_sublist)

lemma str_in_trans: "str_in a b \<Longrightarrow> str_in b c \<Longrightarrow> str_in a c"
  unfolding str_in_sublist by (rule sublist_order.order.trans)

lemma str_in_antisym: "str_in a b \<Longrightarrow> str_in b a \<Longrightarrow> a = b"
  unfolding str_in_sublist by (rule sublist_order.order.antisym)

lemma str_in_length: "str_in a b \<Longrightarrow> length a \<le> length b"
  unfolding str_in_sublist by (rule sublist_length_le)

lemma prefix_str_in: "prefix a b \<Longrightarrow> str_in a b"
  by (simp add: str_in_sublist)

lemma commonprefix_sym: "commonprefix a b = commonprefix b a"
  by (induction a b rule: commonprefix.induct) (auto split: list.splits, (case_tac s2; simp)+)

lemma commonprefix_prefix1: "prefix (commonprefix a b) a"
  by (induction a b rule: commonprefix.induct) auto

lemma commonprefix_prefix2: "prefix (commonprefix a b) b"
  by (induction a b rule: commonprefix.induct) auto

lemma commonprefix_of_prefix: "prefix a b \<Longrightarrow> commonprefix a b = a"
  by (induction a b rule: commonprefix.induct) auto

lemma commonprefix_greatest: "prefix p a \<Longrightarrow> prefix p b \<Longrightarrow> prefix p (commonprefix a b)"
  by (induction a b arbitrary: p rule: commonprefix.induct) (auto simp: prefix_Cons)

lemma combinations2_set:
  "set (combinations2 xs) \<subseteq> set xs \<times> set xs"
  by (induction xs) auto

lemma combinations2_pair:
  "x \<in> set xs \<Longrightarrow> y \<in> set xs \<Longrightarrow> x \<noteq> y \<Longrightarrow>
   (x, y) \<in> set (combinations2 xs) \<or> (y, x) \<in> set (combinations2 xs)"
  by (induction xs) auto

lemma set_distinct_from: "set (distinct_from seen xs) = set xs - set seen"
  by (induction xs arbitrary: seen) auto

lemma distinct_distinct_from: "distinct (distinct_from seen xs)"
  by (induction xs arbitrary: seen) (auto simp: set_distinct_from)

lemma set_distinct_list: "set (distinct_list xs) = set xs"
  by (simp add: distinct_list_def set_distinct_from)

lemma distinct_distinct_list: "distinct (distinct_list xs)"
  by (simp add: distinct_list_def distinct_distinct_from)

lemma existing_loop_eq:
  "existing_loop schema flds (lg, res) =
     (lg @ map (\<lambda>f. (WARNING, FieldNotFound f)) [f \<leftarrow> flds. \<not> is_column_exist schema f],
      res @ [f \<leftarrow> flds. is_column_exist schema f])"
  by (induction flds arbitrary: lg res) auto

lemma is_field_need_to_be_dropped_iff:
  "is_field_need_to_be_dropped field ps \<longleftrightarrow> (\<forall>p \<in> set ps. \<not> str_in p field)"
  by (induction ps) auto

lemma replace_loop_added:
  "replace_loop root flds True res = res @ [f \<leftarrow> flds. \<not> str_in root f]"
  by (induction flds arbitrary: res) auto

lemma replace_loop_fresh:
  "replace_loop root flds False res =
     res @ takeWhile (\<lambda>f. \<not> str_in root f) flds @
       (if \<exists>f \<in> set flds. str_in root f
        then root # [f \<leftarrow> dropWhile (\<lambda>f. \<not> str_in root f) flds. \<not> str_in root f]
        else [])"
proof (induction flds arbitrary: res)
  case Nil
  then show ?case by simp
next
  case (Cons f flds)
  show ?case
  proof (cases "str_in root f")
    case True
    then show ?thesis by (simp add: replace_loop_added)
  next
    case False
    then show ?thesis using Cons.IH [of "res @ [f]"] by simp
  qed
qed

lemma replace_elements_with_root_eq:
  "replace_elements_with_root flds root =
     takeWhile (\<lambda>f. \<not> str_in root f) flds @
       (if \<exists>f \<in> set flds. str_in root f
        then root # [f \<leftarrow> dropWhile (\<lambda>f. \<not> str_in root f) flds. \<not> str_in root f]
        else [])"
  by (simp add: replace_elements_with_root_def replace_loop_fresh)

lemma set_replace_loop:
  "set (replace_loop root flds added res) =
     set res \<union> {f \<in> set flds. \<not> str_in root f} \<union>
       (if \<not> added \<and> (\<exists>f \<in> set flds. str_in root f) then {root} else {})"
  by (induction flds arbitrary: added res) auto

lemma set_replace_elements_with_root:
  "set (replace_elements_with_root flds root) =
     {f \<in> set flds. \<not> str_in root f} \<union> (if \<exists>f \<in> set flds. str_in root f then {root} else {})"
  by (simp add: replace_elements_with_root_def set_replace_loop)

lemma replace_elements_with_roots_snoc:
  "replace_elements_with_roots res (roots @ [root]) =
     replace_elements_with_root (replace_elements_with_roots res roots) root"
  by (induction roots arbitrary: res) auto

lemma set_replace_elements_with_roots:
  "set roots \<subseteq> set flds \<Longrightarrow>
   set (replace_elements_with_roots flds roots) =
     {f \<in> set flds. \<forall>r \<in> set roots. str_in r f \<longrightarrow> r = f}"
proof (induction roots rule: rev_induct)
  case Nil
  then show ?case by simp
next
  case (snoc r roots)
  let ?M = "{f \<in> set flds. \<forall>r \<in> set roots. str_in r f \<longrightarrow> r = f}"
  from snoc have IH: "set (replace_elements_with_roots flds roots) = ?M" and r: "r \<in> set flds"
    by auto
  show ?case
  proof (cases "r \<in> ?M")
    case True
    then have "\<exists>f \<in> ?M. str_in r f" using str_in_refl by blast
    with True show ?thesis
      by (auto simp: replace_elements_with_roots_snoc set_replace_elements_with_root IH)
  next
    case False
    with r obtain r' where r': "r' \<in> set roots" "str_in r' r" "r' \<noteq> r" by auto
    have "\<not> (\<exists>f \<in> ?M. str_in r f)"
    proof
      assume "\<exists>f \<in> ?M. str_in r f"
      then obtain f where f: "f \<in> ?M" "str_in r f" by blast
      with r' have "str_in r' f" by (blast intro: str_in_trans)
      with f r' have "r' = f" by blast
      with f r' show False by (blast intro: str_in_antisym)
    qed
    with False show ?thesis
      by (auto simp: replace_elements_with_roots_snoc set_replace_elements_with_root IH)
  qed
qed

lemma root_elements_iff:
  "r \<in> root_elements flds \<longleftrightarrow>
     r \<in> set flds \<and> r \<noteq> [] \<and> (\<exists>(c1, c2) \<in> set (combinations2 flds). commonprefix c1 c2 = r)"
  by (auto simp: root_elements_def common_elements_def)

lemma root_elements_subset: "root_elements flds \<subseteq> set flds"
  by (auto simp: root_elements_iff)

lemma root_elementsI:
  assumes "s \<in> set flds" "l \<in> set flds" "prefix s l" "s \<noteq> l" "s \<noteq> []"
  shows "s \<in> root_elements flds"
proof -
  from combinations2_pair [OF assms(1,2,4)]
  have "\<exists>(c1, c2) \<in> set (combinations2 flds). commonprefix c1 c2 = s"
    using commonprefix_of_prefix [OF assms(3)] commonprefix_sym [of l s] by fastforce
  with assms show ?thesis by (simp add: root_elements_iff)
qed

lemma filter_only_existing_fields_eq:
  "filter_only_existing_fields schema flds =
     (map (\<lambda>f. (WARNING, FieldNotFound f)) [f \<leftarrow> distinct_list flds. \<not> is_column_exist schema f],
      [f \<leftarrow> distinct_list flds. is_column_exist schema f])"
  by (simp add: filter_only_existing_fields_def existing_loop_eq)

lemma only_existing_columns_eq:
  "only_existing_columns self df =
     [f \<leftarrow> distinct_list (whitelist_columns self). is_column_exist (df_schema df) f]"
  by (simp add: only_existing_columns_def filter_only_existing_fields_eq)

lemma set_only_existing_columns:
  "set (only_existing_columns self df) =
     set (whitelist_columns self) \<inter> set (flatten_schema (df_schema df))"
  by (auto simp: only_existing_columns_eq set_distinct_list is_column_exist_def)

lemma snd_filter_only_parents_fields:
  "snd (filter_only_parents_fields iter flds) =
     replace_elements_with_roots flds (iter (root_elements flds))"
  by (simp add: filter_only_parents_fields_def Let_def)

lemma fst_filter_only_parents_fields:
  "fst (filter_only_parents_fields iter flds) =
     (if root_elements flds \<noteq> {} then [(WARNING, RootElementsFound (root_elements flds))] else [])"
  by (simp add: filter_only_parents_fields_def Let_def)

lemma whitelist_parent_fields_eq:
  assumes "set_iteration iter (root_elements (only_existing_columns self df))"
  shows "whitelist_parent_fields iter self df =
     {f \<in> set (only_existing_columns self df).
        \<forall>r \<in> root_elements (only_existing_columns self df). str_in r f \<longrightarrow> r = f}"
proof -
  let ?E = "only_existing_columns self df"
  from assms have it: "set (iter (root_elements ?E)) = root_elements ?E"
    by (simp add: set_iteration_def)
  then have "set (iter (root_elements ?E)) \<subseteq> set ?E"
    using root_elements_subset by simp
  from set_replace_elements_with_roots [OF this] it show ?thesis
    by (simp add: whitelist_parent_fields_def snd_filter_only_parents_fields)
qed

lemma minimal_root_exists:
  assumes "f \<in> set flds" "R \<subseteq> set flds"
  shows "\<exists>k \<in> {f \<in> set flds. \<forall>r \<in> R. str_in r f \<longrightarrow> r = f}. str_in k f"
  using assms(1)
proof (induction "length f" arbitrary: f rule: less_induct)
  case less
  show ?case
  proof (cases "\<forall>r \<in> R. str_in r f \<longrightarrow> r = f")
    case True
    with less.prems show ?thesis using str_in_refl by blast
  next
    case False
    then obtain r where r: "r \<in> R" "str_in r f" "r \<noteq> f" by blast
    have "length r < length f"
    proof (rule ccontr)
      assume "\<not> length r < length f"
      with str_in_length [OF r(2)] have "length r = length f" by simp
      with r(2) have "r = f"
        by (auto simp: str_in_iff)
      with r(3) show False by simp
    qed
    moreover from r assms(2) have "r \<in> set flds" by blast
    ultimately obtain k where "k \<in> {f \<in> set flds. \<forall>r \<in> R. str_in r f \<longrightarrow> r = f}" "str_in k r"
      using less.hyps by blast
    with r(2) show ?thesis by (blast intro: str_in_trans)
  qed
qed

lemma whitelist_parent_fields_cover:
  assumes "set_iteration iter (root_elements (only_existing_columns self df))"
    and "f \<in> set (only_existing_columns self df)"
  shows "\<exists>k \<in> whitelist_parent_fields iter self df. str_in k f"
  using minimal_root_exists [OF assms(2) root_elements_subset]
  by (simp add: whitelist_parent_fields_eq [OF assms(1)])

lemma fields_to_drop_of_eq:
  assumes "set_iteration iter parents"
  shows "fields_to_drop_of iter all_fields parents =
     {p \<in> set all_fields. \<forall>k \<in> parents. \<not> str_in k p}"
  using assms by (auto simp: fields_to_drop_of_def is_field_need_to_be_dropped_iff set_iteration_def)

lemma find_fields_to_drop_eq:
  "find_fields_to_drop iter self df =
     (fst (filter_only_existing_fields (df_schema df) (whitelist_columns self)) @
      fst (filter_only_parents_fields iter (only_existing_columns self df)),
      fields_to_drop_of iter (flatten_schema (df_schema df)) (whitelist_parent_fields iter self df))"
  by (simp add: find_fields_to_drop_def whitelist_parent_fields_def only_existing_columns_def
      Let_def split: prod.splits)

lemma snd_find_fields_to_drop:
  assumes "iterates_for iter self df"
  shows "snd (find_fields_to_drop iter self df) =
     {p \<in> set (flatten_schema (df_schema df)).
        \<forall>k \<in> whitelist_parent_fields iter self df. \<not> str_in k p}"
  using assms by (simp add: find_fields_to_drop_eq fields_to_drop_of_eq iterates_for_def)

lemma count_list_filter_neq: "count_list [f \<leftarrow> xs. P f] r = (if P r then count_list xs r else 0)"
  by (induction xs) auto

lemma fst_find_fields_to_drop:
  "fst (find_fields_to_drop iter self df) =
     map (\<lambda>f. (WARNING, FieldNotFound f))
       [f \<leftarrow> distinct_list (whitelist_columns self). \<not> is_column_exist (df_schema df) f] @
     (if root_elements (only_existing_columns self df) \<noteq> {}
      then [(WARNING, RootElementsFound (root_elements (only_existing_columns self df)))] else [])"
  by (simp add: find_fields_to_drop_eq filter_only_existing_fields_eq fst_filter_only_parents_fields)

lemma root_warning_logged:
  "r \<in> root_elements (only_existing_columns self df) \<Longrightarrow>
   (WARNING, RootElementsFound (root_elements (only_existing_columns self df)))
     \<in> set (fst (find_fields_to_drop iter self df))"
  by (auto simp: fst_find_fields_to_drop)

lemma whitelist_parent_fields_subset:
  assumes "set_iteration iter (root_elements (only_existing_columns self df))"
  shows "whitelist_parent_fields iter self df \<subseteq> set (only_existing_columns self df)"
  unfolding whitelist_parent_fields_eq [OF assms] by blast

lemma not_parent_if_contains_root:
  assumes "set_iteration iter (root_elements (only_existing_columns self df))"
    and "r \<in> root_elements (only_existing_columns self df)" and "str_in r f" and "r \<noteq> f"
  shows "f \<notin> whitelist_parent_fields iter self df"
  unfolding whitelist_parent_fields_eq [OF assms(1)] using assms(2-4) by blast

lemma parent_if_no_other_root:
  assumes "set_iteration iter (root_elements (only_existing_columns self df))"
    and "f \<in> set (only_existing_columns self df)"
    and "\<And>r. r \<in> root_elements (only_existing_columns self df) \<Longrightarrow> str_in r f \<Longrightarrow> r = f"
  shows "f \<in> whitelist_parent_fields iter self df"
  unfolding whitelist_parent_fields_eq [OF assms(1)] using assms(2,3) by blast

lemma drop_loop_plan:
  "df_plan (snd (drop_loop idx flds (lg, df))) = df_plan df @ ops_from idx flds"
  by (induction flds arbitrary: idx lg df)
     (simp_all add: Let_def drop_field_def force_calculation_def cache_def
        NUMBER_OF_ITERATIONS_TO_FORCE_CATALYST_FLUSH_def)

lemma drop_fields_plan:
  "df_plan (snd (drop_fields df flds)) = df_plan df @ ops_from 0 flds"
  by (simp add: drop_fields_def drop_loop_plan)

lemma ops_from_append:
  "ops_from idx (xs @ ys) = ops_from idx xs @ ops_from (idx + length xs) ys"
  by (induction xs arbitrary: idx) simp_all

lemma ops_from_short:
  "idx mod 10 + length flds < 10 \<Longrightarrow> ops_from idx flds = map DropField flds"
proof (induction flds arbitrary: idx)
  case Nil
  then show ?case by simp
next
  case (Cons f flds)
  from Cons.prems have a: "Suc idx mod 10 = Suc (idx mod 10)"
    by (simp add: mod_Suc)
  with Cons.prems have "Suc idx mod 10 + length flds < 10" by simp
  from Cons.IH [OF this] a show ?case by simp
qed

lemma ops_from_period: "ops_from (idx + 10) flds = ops_from idx flds"
proof (induction flds arbitrary: idx)
  case Nil
  then show ?case by simp
next
  case (Cons f flds)
  have e1: "idx + 10 + 1 = (idx + 1) + 10" by simp
  have e2: "(idx + 10 + 1) mod 10 = (idx + 1) mod 10" by presburger
  show ?case
    apply (simp only: ops_from.simps e2)
    apply (simp only: e1 Cons.IH)
    done
qed

lemma ops_from_ten:
  assumes "length xs = 10"
  shows "ops_from 0 xs = map DropField xs @ [Cache]"
proof -
  from assms have ne: "xs \<noteq> []" by auto
  then have xs: "xs = butlast xs @ [last xs]" by simp
  from assms have len: "length (butlast xs) = 9" by simp
  have "ops_from 0 xs = ops_from 0 (butlast xs @ [last xs])"
    using xs by simp
  also have "\<dots> = ops_from 0 (butlast xs) @ ops_from 9 [last xs]"
    by (simp only: ops_from_append len add_0)
  also have "ops_from 0 (butlast xs) = map DropField (butlast xs)"
    by (rule ops_from_short) (use assms in simp)
  also have "ops_from 9 [last xs] = [DropField (last xs), Cache]"
    by simp
  finally have "ops_from 0 xs = map DropField (butlast xs @ [last xs]) @ [Cache]"
    by simp
  with xs show ?thesis by simp
qed

lemma ops_from_batched: "ops_from 0 flds = batched_ops flds"
proof (induction flds rule: batched_ops.induct)
  case (1 flds)
  show ?case
  proof (cases "length flds < 10")
    case True
    then show ?thesis
      by (simp add: ops_from_short batched_ops.simps [of flds])
  next
    case False
    then have len: "length (take 10 flds) = 10" by simp
    have "ops_from 0 flds = ops_from 0 (take 10 flds @ drop 10 flds)" by simp
    also have "\<dots> = ops_from 0 (take 10 flds) @ ops_from (0 + 10) (drop 10 flds)"
      by (simp only: ops_from_append len)
    also have "\<dots> = (map DropField (take 10 flds) @ [Cache]) @ ops_from 0 (drop 10 flds)"
      by (simp only: ops_from_ten [OF len] ops_from_period)
    also have "\<dots> = map DropField (take 10 flds) @ Cache # batched_ops (drop 10 flds)"
      using "1.IH" [OF False] by simp
    finally show ?thesis
      using False by (simp add: batched_ops.simps [of flds])
  qed
qed

lemma count_cache_batched:
  "length [op \<leftarrow> batched_ops flds. op = Cache] = length flds div 10"
proof (induction flds rule: batched_ops.induct)
  case (1 flds)
  show ?case
  proof (cases "length flds < 10")
    case True
    then show ?thesis
      by (simp add: batched_ops.simps [of flds] filter_map comp_def)
  next
    case False
    have "length [op \<leftarrow> batched_ops flds. op = Cache] = Suc (length [op \<leftarrow> batched_ops (drop 10 flds). op = Cache])"
      using False by (simp add: batched_ops.simps [of flds] filter_map comp_def)
    also have "\<dots> = Suc ((length flds - 10) div 10)"
      using "1.IH" [OF False] by simp
    also have "\<dots> = length flds div 10"
      using False by (simp add: le_div_geq)
    finally show ?thesis .
  qed
qed

lemma process_plan:
  "\<not> no_fields_to_select self df \<Longrightarrow>
   df_plan (snd (process iter self df)) =
     df_plan df @ batched_ops (iter (snd (find_fields_to_drop iter self df)))"
  by (simp add: process_def Let_def split: prod.splits)
     (metis drop_fields_plan ops_from_batched snd_conv)

lemma existing_not_dropped:
  assumes "iterates_for iter self df" and "w \<in> set (only_existing_columns self df)"
  shows "w \<notin> snd (find_fields_to_drop iter self df)"
proof -
  from assms(1) have it: "set_iteration iter (root_elements (only_existing_columns self df))"
    by (simp add: iterates_for_def)
  from whitelist_parent_fields_cover [OF it assms(2)]
  show ?thesis by (simp add: snd_find_fields_to_drop [OF assms(1)])
qed


subsection \<open>The result does not depend on the order of iteration\<close>

lemma scenario_drop_set_any_iteration:
  assumes "set (flatten_schema (df_schema df)) = {''a'', ''a.b'', ''a.c'', ''d''}"
    and "whitelist_columns self = [''a.b'', ''d'']"
    and "iterates_for iter self df"
  shows "snd (find_fields_to_drop iter self df) = {''a'', ''a.c''}"
proof -
  have E: "only_existing_columns self df = [''a.b'', ''d'']"
    by (simp add: only_existing_columns_eq distinct_list_def is_column_exist_def assms(1,2))
  have R: "root_elements [''a.b'', ''d''] = {}"
    by (simp add: root_elements_def common_elements_def)
  from assms(3) have "set_iteration iter (root_elements (only_existing_columns self df))"
    by (simp add: iterates_for_def)
  from whitelist_parent_fields_eq [OF this]
  have K: "whitelist_parent_fields iter self df = {''a.b'', ''d''}"
    by (auto simp: E R)
  show ?thesis
    unfolding snd_find_fields_to_drop [OF assms(3)] K assms(1) by auto
qed

lemma find_fields_to_drop_iteration_independent:
  assumes "iterates_for iter1 self df" and "iterates_for iter2 self df"
  shows "find_fields_to_drop iter1 self df = find_fields_to_drop iter2 self df"
proof -
  let ?E = "only_existing_columns self df"
  from assms have "set_iteration iter1 (root_elements ?E)" "set_iteration iter2 (root_elements ?E)"
    by (simp_all add: iterates_for_def)
  then have K: "whitelist_parent_fields iter1 self df = whitelist_parent_fields iter2 self df"
    by (simp add: whitelist_parent_fields_eq)
  have "snd (find_fields_to_drop iter1 self df) = snd (find_fields_to_drop iter2 self df)"
    by (simp add: snd_find_fields_to_drop assms K)
  moreover have "fst (find_fields_to_drop iter1 self df) = fst (find_fields_to_drop iter2 self df)"
    by (simp add: fst_find_fields_to_drop)
  ultimately show ?thesis by (rule prod_eqI [rotated])
qed

lemma iteration_order_example:
  "snd (filter_only_parents_fields iter_forward (only_existing_columns wl_two_roots df_two_roots))
     \<noteq> snd (filter_only_parents_fields iter_backward (only_existing_columns wl_two_roots df_two_roots)) \<and>
   find_fields_to_drop iter_forward wl_two_roots df_two_roots
     = find_fields_to_drop iter_backward wl_two_roots df_two_roots"
  by code_simp


subsection \<open>Applying the processor to its own result\<close>

text \<open>
  The processor changes its own result only when the first application has removed a
  requested field: if every requested path of the schema is still in the schema of the
  result, a second application drops nothing and returns the same data frame. When there
  is nothing to select, both applications return no rows and the schema of the input.
\<close>

lemma drop_loop_rows:
  "df_rows (snd (drop_loop idx flds (lg, df))) = df_rows df"
  by (induction flds arbitrary: idx lg df)
     (simp_all add: Let_def drop_field_def force_calculation_def cache_def)

lemma drop_loop_paths:
  "flatten_schema (df_schema (snd (drop_loop idx flds (lg, df)))) =
     [p \<leftarrow> flatten_schema (df_schema df). \<forall>d \<in> set flds. p \<noteq> d \<and> \<not> prefix (d @ ''.'') p]"
proof (induction flds arbitrary: idx lg df)
  case Nil
  then show ?case by simp
next
  case (Cons f flds)
  have s1: "flatten_schema (df_schema (drop_field df f)) =
      [p \<leftarrow> flatten_schema (df_schema df). p \<noteq> f \<and> \<not> prefix (f @ ''.'') p]"
    by (simp add: drop_field_def flatten_schema_def)
  have s2: "df_schema (force_calculation (drop_field df f)) = df_schema (drop_field df f)"
    by (simp add: force_calculation_def cache_def)
  show ?case
    by (auto simp add: Let_def Cons.IH s1 s2 intro: filter_cong)
qed

lemma drop_fields_paths_subset:
  "set (flatten_schema (df_schema (snd (drop_fields df flds))))
     \<subseteq> set (flatten_schema (df_schema df)) - set flds"
  by (auto simp: drop_fields_def drop_loop_paths)

lemma snd_process_drop:
  "\<not> no_fields_to_select self df \<Longrightarrow>
   snd (process iter self df) =
     snd (drop_fields df (iter (snd (find_fields_to_drop iter self df))))"
  by (simp add: process_def Let_def split: prod.splits)

lemma no_fields_to_select_iff:
  "no_fields_to_select self df \<longleftrightarrow> set (only_existing_columns self df) = {}"
  by (auto simp: no_fields_to_select_def Let_def set_only_existing_columns)

lemma process_twice_when_requested_survive:
  assumes nss: "\<not> no_fields_to_select self df"
    and it: "iterates_for iter self df"
    and itD: "set_iteration iter (snd (find_fields_to_drop iter self df))"
    and it1: "iterates_for iter self (snd (process iter self df))"
    and itE: "set_iteration iter {}"
    and surv: "set (only_existing_columns self df)
                 \<subseteq> set (flatten_schema (df_schema (snd (process iter self df))))"
  shows "snd (find_fields_to_drop iter self (snd (process iter self df))) = {} \<and>
         snd (process iter self (snd (process iter self df))) = snd (process iter self df)"
proof -
  let ?df1 = "snd (process iter self df)"
  let ?D = "snd (find_fields_to_drop iter self df)"
  let ?F = "flatten_schema (df_schema df)"
  let ?F1 = "flatten_schema (df_schema ?df1)"
  let ?E = "only_existing_columns self df"
  from itD have sD: "set (iter ?D) = ?D" by (simp add: set_iteration_def)
  from itE have iE: "iter {} = []" by (simp add: set_iteration_def)
  have F1: "set ?F1 \<subseteq> set ?F - ?D"
    using drop_fields_paths_subset [of df "iter ?D"] by (simp add: snd_process_drop [OF nss] sD)
  have ex: "is_column_exist (df_schema ?df1) w = is_column_exist (df_schema df) w"
    if "w \<in> set (distinct_list (whitelist_columns self))" for w
  proof (cases "is_column_exist (df_schema df) w")
    case True
    with that have "w \<in> set ?E" by (simp add: only_existing_columns_eq)
    with surv True show ?thesis by (auto simp: is_column_exist_def)
  next
    case False
    with F1 show ?thesis by (auto simp: is_column_exist_def)
  qed
  have E1: "only_existing_columns self ?df1 = ?E"
    unfolding only_existing_columns_eq using ex by (rule filter_cong [OF refl])
  from it have itR: "set_iteration iter (root_elements ?E)" by (simp add: iterates_for_def)
  from it1 have itR1: "set_iteration iter (root_elements (only_existing_columns self ?df1))"
    by (simp add: iterates_for_def)
  have K1: "whitelist_parent_fields iter self ?df1 = whitelist_parent_fields iter self df"
    unfolding whitelist_parent_fields_eq [OF itR1] whitelist_parent_fields_eq [OF itR] E1 ..
  have D2: "snd (find_fields_to_drop iter self ?df1) = {}"
  proof -
    have "\<exists>k \<in> whitelist_parent_fields iter self df. str_in k p" if "p \<in> set ?F1" for p
    proof -
      from that F1 have "p \<in> set ?F" "p \<notin> ?D" by auto
      then show ?thesis by (simp add: snd_find_fields_to_drop [OF it])
    qed
    then show ?thesis
      unfolding snd_find_fields_to_drop [OF it1] K1 by blast
  qed
  from nss have "set ?E \<noteq> {}" by (simp add: no_fields_to_select_iff)
  then have nss1: "\<not> no_fields_to_select self ?df1"
    by (simp add: no_fields_to_select_iff E1)
  have "snd (process iter self ?df1) = ?df1"
    by (simp add: snd_process_drop [OF nss1] D2 iE drop_fields_def)
  with D2 show ?thesis by simp
qed

lemma process_twice_when_nothing_to_select:
  assumes "no_fields_to_select self df"
  shows "df_schema (snd (process iter self (snd (process iter self df)))) = df_schema df \<and>
         df_rows (snd (process iter self (snd (process iter self df)))) = 0 \<and>
         df_schema (snd (process iter self df)) = df_schema df \<and>
         df_rows (snd (process iter self df)) = 0"
proof -
  from assms have p: "snd (process iter self df) = limit df 0"
    by (simp add: process_def)
  from assms have "no_fields_to_select self (limit df 0)"
    by (simp add: no_fields_to_select_def limit_def)
  then have "snd (process iter self (limit df 0)) = limit (limit df 0) 0"
    by (simp add: process_def)
  with p show ?thesis by (simp add: limit_def)
qed

lemma process_twice_on_leaf_paths:
  "set (only_existing_columns wl_ab_d df_leaves)
     \<subseteq> set (flatten_schema (df_schema (snd (process iter_abcd wl_ab_d df_leaves)))) \<and>
   snd (find_fields_to_drop iter_abcd wl_ab_d (snd (process iter_abcd wl_ab_d df_leaves))) = {} \<and>
   snd (process iter_abcd wl_ab_d (snd (process iter_abcd wl_ab_d df_leaves)))
     = snd (process iter_abcd wl_ab_d df_leaves)"
proof -
  have h1: "\<not> no_fields_to_select wl_ab_d df_leaves" by code_simp
  have h2: "iterates_for iter_abcd wl_ab_d df_leaves" by code_simp
  have h3: "set_iteration iter_abcd (snd (find_fields_to_drop iter_abcd wl_ab_d df_leaves))"
    by code_simp
  have h4: "iterates_for iter_abcd wl_ab_d (snd (process iter_abcd wl_ab_d df_leaves))"
    by code_simp
  have h5: "set_iteration iter_abcd {}" by code_simp
  have h6: "set (only_existing_columns wl_ab_d df_leaves)
     \<subseteq> set (flatten_schema (df_schema (snd (process iter_abcd wl_ab_d df_leaves))))"
    by code_simp
  from process_twice_when_requested_survive [OF h1 h2 h3 h4 h5 h6] h6 show ?thesis by blast
qed


section \<open>Claims\<close>


subsection \<open>C1: the scenario of the spec\<close>


subsection \<open>C2: drop-set and kept paths partition the flattened paths\<close>

text \<open>
  As stated, C2 takes the kept paths to be those that have a kept root as a prefix. With
  the fields \<open>a\<close> and \<open>ba\<close> and the whitelist \<open>[a]\<close>, the path \<open>ba\<close> is not dropped (the
  root \<open>a\<close> occurs in it) and has no kept root as a prefix, so the union does not cover
  the flattened paths.
\<close>

theorem C2_counterexample:
  "snd (find_fields_to_drop iter_a_ba wl_a df_a_ba) \<union>
     prefix_matched (flatten_schema (df_schema df_a_ba)) (whitelist_parent_fields iter_a_ba wl_a df_a_ba)
   \<noteq> set (flatten_schema (df_schema df_a_ba))"
  by code_simp

text \<open>
  C2, amended: for every data frame and whitelist request, the drop-set is disjoint from
  the keep-root set, and the drop-set together with the set of flattened paths in which a
  kept root occurs as a substring is the full flattened path set, with no overlap. The
  paths that have a kept root as a prefix are among the latter.
\<close>

theorem C2_drop_set_partition:
  assumes "iterates_for iter self df"
  shows "snd (find_fields_to_drop iter self df) \<inter> whitelist_parent_fields iter self df = {} \<and>
         snd (find_fields_to_drop iter self df) \<union>
           substring_matched (flatten_schema (df_schema df)) (whitelist_parent_fields iter self df)
           = set (flatten_schema (df_schema df)) \<and>
         snd (find_fields_to_drop iter self df) \<inter>
           substring_matched (flatten_schema (df_schema df)) (whitelist_parent_fields iter self df) = {} \<and>
         prefix_matched (flatten_schema (df_schema df)) (whitelist_parent_fields iter self df)
           \<subseteq> substring_matched (flatten_schema (df_schema df)) (whitelist_parent_fields iter self df)"
proof -
  let ?D = "snd (find_fields_to_drop iter self df)"
  let ?K = "whitelist_parent_fields iter self df"
  let ?F = "flatten_schema (df_schema df)"
  have D: "?D = {p \<in> set ?F. \<forall>k \<in> ?K. \<not> str_in k p}"
    by (rule snd_find_fields_to_drop [OF assms])
  have "?D \<inter> ?K = {}"
    unfolding D using str_in_refl by blast
  moreover have "?D \<union> substring_matched ?F ?K = set ?F"
    unfolding D substring_matched_def by blast
  moreover have "?D \<inter> substring_matched ?F ?K = {}"
    unfolding D substring_matched_def by blast
  moreover have "prefix_matched ?F ?K \<subseteq> substring_matched ?F ?K"
    unfolding prefix_matched_def substring_matched_def using prefix_str_in by blast
  ultimately show ?thesis by blast
qed

theorem C2_drop_set_partition_witness:
  "iterates_for iter_a_ba wl_a df_a_ba \<and>
   snd (find_fields_to_drop iter_a_ba wl_a df_a_ba) \<inter> whitelist_parent_fields iter_a_ba wl_a df_a_ba = {} \<and>
   snd (find_fields_to_drop iter_a_ba wl_a df_a_ba) \<union>
     substring_matched (flatten_schema (df_schema df_a_ba)) (whitelist_parent_fields iter_a_ba wl_a df_a_ba)
     = set (flatten_schema (df_schema df_a_ba))"
proof -
  have h: "iterates_for iter_a_ba wl_a df_a_ba"
    by code_simp
  from C2_drop_set_partition [OF h] h show ?thesis by blast
qed

subsection \<open>C3: the substring rule\<close>

text \<open>
  C3: for every list of flattened paths and every set of keep-roots, a path is placed in
  the drop-set by the comprehension of \<^verbatim>\<open>find_fields_to_drop\<close> if and only if it is a
  flattened path and no keep-root occurs in it as a substring.
\<close>

theorem C3_dropped_iff_no_keep_root_substring:
  assumes "set_iteration iter parents"
  shows "field \<in> fields_to_drop_of iter all_fields parents \<longleftrightarrow>
         field \<in> set all_fields \<and> \<not> (\<exists>k \<in> parents. \<exists>u v. field = u @ k @ v)"
  by (simp add: fields_to_drop_of_eq [OF assms] str_in_iff)

theorem C3_dropped_iff_no_keep_root_substring_witness:
  "set_iteration iter_abcd {''a.b'', ''d''} \<and>
   ''a.c'' \<in> set [''a'', ''a.b'', ''a.c'', ''d''] \<and>
   \<not> (\<exists>k \<in> {''a.b'', ''d''}. \<exists>u v. ''a.c'' = u @ k @ v)"
proof -
  have h: "set_iteration iter_abcd {''a.b'', ''d''}"
    by code_simp
  have m: "''a.c'' \<in> fields_to_drop_of iter_abcd [''a'', ''a.b'', ''a.c'', ''d''] {''a.b'', ''d''}"
    by code_simp
  from C3_dropped_iff_no_keep_root_substring [OF h, of "''a.c''" "[''a'', ''a.b'', ''a.c'', ''d'']"] m h
  show ?thesis by blast
qed

subsection \<open>C4: replacing requested paths by a root\<close>

text \<open>
  As stated, C4 lets every path that does not have the root as a prefix pass through
  unchanged. For the requested paths \<open>xab, ab, abc\<close> the root is \<open>ab\<close>; the path \<open>xab\<close>
  does not have it as a prefix and is removed all the same, because \<open>ab\<close> occurs in it.
\<close>

theorem C4_counterexample:
  "''ab'' \<in> root_elements [''xab'', ''ab'', ''abc''] \<and>
   unrelated_to ''ab'' (replace_elements_with_root [''xab'', ''ab'', ''abc''] ''ab'')
     \<noteq> unrelated_to ''ab'' [''xab'', ''ab'', ''abc'']"
  by code_simp

text \<open>
  C4, amended: for every list of requested paths and every root, the replacement step
  keeps the paths before the first one that contains the root as a substring, puts the root
  there, once, if there is such a path, and then keeps the later paths that do not contain
  the root. So every other path that contains the root as a substring, in particular every
  one that has it as a prefix, is removed; the root occurs exactly once when some path
  contains it; and the paths that do not contain the root pass through unchanged, in
  order. After the passes for all roots, the paths left are the requested paths that
  contain no root other than themselves.
\<close>

theorem C4_root_replacement:
  "replace_elements_with_root flds root =
     takeWhile (\<lambda>f. \<not> str_in root f) flds @
       (if \<exists>f \<in> set flds. str_in root f
        then root # [f \<leftarrow> dropWhile (\<lambda>f. \<not> str_in root f) flds. \<not> str_in root f]
        else []) \<and>
   (\<forall>f \<in> set flds. str_in root f \<and> f \<noteq> root \<longrightarrow> f \<notin> set (replace_elements_with_root flds root)) \<and>
   (\<forall>f \<in> set flds. prefix root f \<and> f \<noteq> root \<longrightarrow> f \<notin> set (replace_elements_with_root flds root)) \<and>
   ((\<exists>f \<in> set flds. str_in root f) \<longrightarrow> count_list (replace_elements_with_root flds root) root = 1) \<and>
   [f \<leftarrow> replace_elements_with_root flds root. \<not> str_in root f] = [f \<leftarrow> flds. \<not> str_in root f] \<and>
   (set roots \<subseteq> set flds \<longrightarrow>
      set (replace_elements_with_roots flds roots) =
        {f \<in> set flds. \<forall>r \<in> set roots. str_in r f \<longrightarrow> r = f})"
proof -
  let ?P = "\<lambda>f. \<not> str_in root f"
  have tw: "\<forall>f \<in> set (takeWhile ?P flds). ?P f"
    by (auto dest: set_takeWhileD)
  have sub: "\<forall>f \<in> set flds. str_in root f \<and> f \<noteq> root \<longrightarrow> f \<notin> set (replace_elements_with_root flds root)"
    by (auto simp: set_replace_elements_with_root)
  have cnt: "(\<exists>f \<in> set flds. str_in root f) \<longrightarrow> count_list (replace_elements_with_root flds root) root = 1"
  proof
    assume ex: "\<exists>f \<in> set flds. str_in root f"
    have "count_list (takeWhile ?P flds) root = 0"
      using tw str_in_refl by (auto simp: count_list_0_iff)
    then show "count_list (replace_elements_with_root flds root) root = 1"
      using ex by (simp add: replace_elements_with_root_eq count_list_filter_neq str_in_refl)
  qed
  have "[f \<leftarrow> flds. ?P f] = [f \<leftarrow> takeWhile ?P flds @ dropWhile ?P flds. ?P f]"
    by simp
  also have "\<dots> = takeWhile ?P flds @ [f \<leftarrow> dropWhile ?P flds. ?P f]"
    using tw by (simp only: filter_append) (simp add: filter_id_conv)
  finally have flt: "[f \<leftarrow> flds. ?P f] = takeWhile ?P flds @ [f \<leftarrow> dropWhile ?P flds. ?P f]" .
  have pass: "[f \<leftarrow> replace_elements_with_root flds root. ?P f] = [f \<leftarrow> flds. ?P f]"
  proof (cases "\<exists>f \<in> set flds. str_in root f")
    case True
    then show ?thesis
      using tw by (simp add: replace_elements_with_root_eq flt str_in_refl filter_id_conv)
  next
    case False
    then have tk: "takeWhile ?P flds = flds" by (simp add: takeWhile_eq_all_conv)
    from False show ?thesis
      by (simp add: replace_elements_with_root_eq tk)
  qed
  from sub have pre: "\<forall>f \<in> set flds. prefix root f \<and> f \<noteq> root \<longrightarrow> f \<notin> set (replace_elements_with_root flds root)"
    using prefix_str_in by blast
  have all: "set roots \<subseteq> set flds \<longrightarrow>
      set (replace_elements_with_roots flds roots) =
        {f \<in> set flds. \<forall>r \<in> set roots. str_in r f \<longrightarrow> r = f}"
    using set_replace_elements_with_roots [of roots flds] by blast
  from replace_elements_with_root_eq [of flds root] sub pre cnt pass all show ?thesis by blast
qed

theorem C4_root_replacement_witness:
  "replace_elements_with_root [''xab'', ''ab'', ''abc''] ''ab'' = [''ab''] \<and>
   replace_elements_with_root [''cd'', ''abc'', ''ef'', ''ab''] ''ab'' = [''cd'', ''ab'', ''ef'']"
  using C4_root_replacement [of "[''xab'', ''ab'', ''abc'']" "''ab''" "[]"]
        C4_root_replacement [of "[''cd'', ''abc'', ''ef'', ''ab'']" "''ab''" "[]"]
  by simp

subsection \<open>C5: a path requested together with its child\<close>

text \<open>
  As stated, C5 gives the keep-root set \<open>{a.b}\<close> for every whitelist that contains
  \<open>a.b\<close> and \<open>a.b.c\<close>. A whitelist that contains a third path of the schema, \<open>d\<close>,
  keeps \<open>d\<close> too.
\<close>

theorem C5_counterexample:
  "''a.b'' \<in> set (whitelist_columns wl_nested) \<and> ''a.b.c'' \<in> set (whitelist_columns wl_nested) \<and>
   is_column_exist (df_schema df_nested) ''a.b'' \<and> is_column_exist (df_schema df_nested) ''a.b.c'' \<and>
   whitelist_parent_fields iter_nested wl_nested df_nested \<noteq> {''a.b''}"
  by code_simp

text \<open>
  C5, amended: if the whitelist request contains both \<open>a.b\<close> and \<open>a.b.c\<close>, both
  present in the schema, then a root warning is recorded, \<open>a.b\<close> is a root element
  and \<open>a.b.c\<close> is not a keep-root; if these two are the only requested paths present in
  the schema, the keep-root set is exactly \<open>{a.b}\<close>.
\<close>

theorem C5_parent_and_child_requested:
  assumes "''a.b'' \<in> set (whitelist_columns self)" and "''a.b.c'' \<in> set (whitelist_columns self)"
    and "is_column_exist (df_schema df) ''a.b''" and "is_column_exist (df_schema df) ''a.b.c''"
    and "iterates_for iter self df"
  shows "(WARNING, RootElementsFound (root_elements (only_existing_columns self df)))
           \<in> set (fst (find_fields_to_drop iter self df)) \<and>
         ''a.b'' \<in> root_elements (only_existing_columns self df) \<and>
         ''a.b.c'' \<notin> whitelist_parent_fields iter self df \<and>
         (set (only_existing_columns self df) = {''a.b'', ''a.b.c''} \<longrightarrow>
            whitelist_parent_fields iter self df = {''a.b''})"
proof -
  let ?E = "only_existing_columns self df"
  let ?K = "whitelist_parent_fields iter self df"
  from assms(1,3) have m1: "''a.b'' \<in> set ?E"
    by (simp add: set_only_existing_columns is_column_exist_def)
  from assms(2,4) have m2: "''a.b.c'' \<in> set ?E"
    by (simp add: set_only_existing_columns is_column_exist_def)
  have p: "prefix ''a.b'' ''a.b.c''" by simp
  have ne: "''a.b'' \<noteq> ''a.b.c''" by simp
  have nn: "''a.b'' \<noteq> []" by simp
  have root: "''a.b'' \<in> root_elements ?E"
    by (rule root_elementsI [OF m1 m2 p ne nn])
  from assms(5) have it: "set_iteration iter (root_elements ?E)"
    by (simp add: iterates_for_def)
  have child: "''a.b.c'' \<notin> ?K"
    by (rule not_parent_if_contains_root [OF it root prefix_str_in [OF p] ne])
  have only: "?K = {''a.b''}" if E: "set ?E = {''a.b'', ''a.b.c''}"
  proof -
    have no: "\<not> str_in ''a.b.c'' ''a.b''" by simp
    have "''a.b'' \<in> ?K"
    proof (rule parent_if_no_other_root [OF it m1])
      fix r assume r: "r \<in> root_elements ?E" and s: "str_in r ''a.b''"
      from r root_elements_subset [of ?E] E have "r = ''a.b'' \<or> r = ''a.b.c''" by blast
      with s no show "r = ''a.b''" by blast
    qed
    moreover from whitelist_parent_fields_subset [OF it] E
    have "?K \<subseteq> {''a.b'', ''a.b.c''}" by simp
    ultimately show ?thesis using child by blast
  qed
  from root_warning_logged [OF root] root child only show ?thesis by blast
qed

theorem C5_parent_and_child_requested_witness:
  "''a.b'' \<in> set (whitelist_columns wl_ab_abc) \<and> ''a.b.c'' \<in> set (whitelist_columns wl_ab_abc) \<and>
   is_column_exist (df_schema df_nested) ''a.b'' \<and> is_column_exist (df_schema df_nested) ''a.b.c'' \<and>
   iterates_for iter_nested wl_ab_abc df_nested \<and>
   set (only_existing_columns wl_ab_abc df_nested) = {''a.b'', ''a.b.c''} \<and>
   whitelist_parent_fields iter_nested wl_ab_abc df_nested = {''a.b''} \<and>
   (WARNING, RootElementsFound (root_elements (only_existing_columns wl_ab_abc df_nested)))
      \<in> set (fst (find_fields_to_drop iter_nested wl_ab_abc df_nested))"
proof -
  have h1: "''a.b'' \<in> set (whitelist_columns wl_ab_abc)" by code_simp
  have h2: "''a.b.c'' \<in> set (whitelist_columns wl_ab_abc)" by code_simp
  have h3: "is_column_exist (df_schema df_nested) ''a.b''" by code_simp
  have h4: "is_column_exist (df_schema df_nested) ''a.b.c''" by code_simp
  have h5: "iterates_for iter_nested wl_ab_abc df_nested" by code_simp
  have h6: "set (only_existing_columns wl_ab_abc df_nested) = {''a.b'', ''a.b.c''}" by code_simp
  from C5_parent_and_child_requested [OF h1 h2 h3 h4 h5] h1 h2 h3 h4 h5 h6 show ?thesis by blast
qed

subsection \<open>C6: nothing to select\<close>

text \<open>
  C6: for every data frame and whitelist request of which no path exists in the schema
  (the empty whitelist included), \<^verbatim>\<open>process\<close> logs one warning and returns
  \<^verbatim>\<open>df.limit(0)\<close>: no rows, the schema of the input, and \<open>Limit 0\<close> as the only engine
  operation added, so no field is dropped.
\<close>

theorem C6_no_requested_path_short_circuit:
  assumes "\<forall>w \<in> set (whitelist_columns self). \<not> is_column_exist (df_schema df) w"
  shows "process iter self df =
           ([(WARNING, NoFieldsToSelect (whitelist_columns self) (flatten_schema (df_schema df)))],
            limit df 0) \<and>
         df_rows (snd (process iter self df)) = 0 \<and>
         df_schema (snd (process iter self df)) = df_schema df \<and>
         df_plan (snd (process iter self df)) = df_plan df @ [Limit 0]"
proof -
  from assms have "no_fields_to_select self df"
    by (auto simp: no_fields_to_select_def is_column_exist_def Let_def)
  then show ?thesis
    by (simp add: process_def limit_def)
qed

theorem C6_no_requested_path_short_circuit_witness:
  "whitelist_columns wl_zz = [''zz''] \<and> \<not> is_column_exist (df_schema df_abcd) ''zz'' \<and>
   df_rows (snd (process iter_abcd wl_zz df_abcd)) = 0 \<and>
   df_schema (snd (process iter_abcd wl_zz df_abcd)) = df_schema df_abcd \<and>
   df_plan (snd (process iter_abcd wl_zz df_abcd)) = df_plan df_abcd @ [Limit 0]"
proof -
  have h: "\<forall>w \<in> set (whitelist_columns wl_zz). \<not> is_column_exist (df_schema df_abcd) w"
    by code_simp
  have w: "whitelist_columns wl_zz = [''zz'']" by code_simp
  have z: "\<not> is_column_exist (df_schema df_abcd) ''zz''" by code_simp
  from C6_no_requested_path_short_circuit [OF h] w z show ?thesis by blast
qed

subsection \<open>C7: forced calculation after every ten drops\<close>

text \<open>
  C7: for every data frame and every list of paths to drop, \<^verbatim>\<open>drop_fields\<close> issues
  one drop per path and calls \<^verbatim>\<open>force_calculation\<close> after every full batch of ten
  drops, and only then. The count starts at zero in every call: a second call on the
  result batches its own list from the start. \<^verbatim>\<open>process\<close> runs it once, on the
  drop-set as iterated.
\<close>

theorem C7_flush_after_every_ten_drops:
  "df_plan (snd (drop_fields df flds)) = df_plan df @ batched_ops flds \<and>
   df_plan (snd (drop_fields (snd (drop_fields df flds)) flds')) =
     df_plan df @ batched_ops flds @ batched_ops flds' \<and>
   length [op \<leftarrow> batched_ops flds. op = Cache] = length flds div 10 \<and>
   (\<not> no_fields_to_select self df \<longrightarrow>
      df_plan (snd (process iter self df)) =
        df_plan df @ batched_ops (iter (snd (find_fields_to_drop iter self df))))"
  by (simp add: drop_fields_plan ops_from_batched count_cache_batched process_plan)

theorem C7_flush_after_every_ten_drops_witness:
  "\<not> no_fields_to_select wl_none df_wide \<and>
   df_plan (snd (process iter_wide wl_none df_wide)) =
     [DropField ''c01'', DropField ''c02'', DropField ''c03'', DropField ''c04'', DropField ''c05'',
      DropField ''c06'', DropField ''c07'', DropField ''c08'', DropField ''c09'', DropField ''c10'',
      Cache, DropField ''c11'', DropField ''c12'']"
proof -
  have h: "\<not> no_fields_to_select wl_none df_wide" by code_simp
  have d: "iter_wide (snd (find_fields_to_drop iter_wide wl_none df_wide)) =
     [''c01'', ''c02'', ''c03'', ''c04'', ''c05'', ''c06'', ''c07'', ''c08'', ''c09'', ''c10'',
      ''c11'', ''c12'']" by code_simp
  have p: "df_plan df_wide = []" by code_simp
  have b: "batched_ops [''c01'', ''c02'', ''c03'', ''c04'', ''c05'', ''c06'', ''c07'', ''c08'', ''c09'', ''c10'',
      ''c11'', ''c12''] = [DropField ''c01'', DropField ''c02'', DropField ''c03'', DropField ''c04'', DropField ''c05'',
      DropField ''c06'', DropField ''c07'', DropField ''c08'', DropField ''c09'', DropField ''c10'',
      Cache, DropField ''c11'', DropField ''c12'']" by code_simp
  from C7_flush_after_every_ten_drops [of df_wide "[]" "[]" wl_none iter_wide] h d p b
  show ?thesis by simp
qed

subsection \<open>C8: requested paths that are not in the schema\<close>

text \<open>
  C8: for every schema and whitelist request, \<^verbatim>\<open>__filter_only_existing_fields\<close>
  returns the requested paths that exist in the schema, de-duplicated and in the order of
  the request, and logs one warning for each requested path that does not exist. It
  returns a value for every input: nothing is raised.
\<close>

theorem C8_absent_paths_logged_and_skipped:
  "filter_only_existing_fields schema flds =
     (map (\<lambda>f. (WARNING, FieldNotFound f)) [f \<leftarrow> distinct_list flds. \<not> is_column_exist schema f],
      [f \<leftarrow> distinct_list flds. is_column_exist schema f]) \<and>
   set (snd (filter_only_existing_fields schema flds)) = {f \<in> set flds. is_column_exist schema f} \<and>
   set (fst (filter_only_existing_fields schema flds)) =
     (\<lambda>f. (WARNING, FieldNotFound f)) ` {f \<in> set flds. \<not> is_column_exist schema f} \<and>
   distinct (fst (filter_only_existing_fields schema flds))"
  by (auto simp: filter_only_existing_fields_eq set_distinct_list distinct_map
      distinct_distinct_list inj_on_def)

theorem C8_absent_paths_logged_and_skipped_witness:
  "filter_only_existing_fields (StructType [''a'', ''a.b'', ''a.c'', ''d'']) [''a.b'', ''zz'', ''d'', ''a.b''] =
     ([(WARNING, FieldNotFound ''zz'')], [''a.b'', ''d''])"
  using C8_absent_paths_logged_and_skipped
          [of "StructType [''a'', ''a.b'', ''a.c'', ''d'']" "[''a.b'', ''zz'', ''d'', ''a.b'']"]
  by (simp add: distinct_list_def is_column_exist_def flatten_schema_def)

subsection \<open>C9: applying the selector again\<close>


subsection \<open>C10: a character-level prefix counts as a root\<close>

text \<open>
  C10: if a non-empty surviving requested path \<open>s\<close> is a proper character-level prefix
  of another surviving requested path \<open>l\<close> (a path-segment ancestor or not), then \<open>s\<close>
  is a root element, the root warning is logged, \<open>l\<close> is not a keep-root, and no
  flattened path that contains \<open>s\<close> as a substring is dropped.
\<close>

theorem C10_character_prefix_is_root:
  assumes "iterates_for iter self df"
    and "s \<in> set (only_existing_columns self df)" and "l \<in> set (only_existing_columns self df)"
    and "prefix s l" and "s \<noteq> l" and "s \<noteq> []"
  shows "s \<in> root_elements (only_existing_columns self df) \<and>
         (WARNING, RootElementsFound (root_elements (only_existing_columns self df)))
           \<in> set (fst (find_fields_to_drop iter self df)) \<and>
         l \<notin> whitelist_parent_fields iter self df \<and>
         (\<forall>p \<in> set (flatten_schema (df_schema df)).
            str_in s p \<longrightarrow> p \<notin> snd (find_fields_to_drop iter self df))"
proof -
  let ?E = "only_existing_columns self df"
  have root: "s \<in> root_elements ?E"
    by (rule root_elementsI [OF assms(2-6)])
  from assms(1) have it: "set_iteration iter (root_elements ?E)"
    by (simp add: iterates_for_def)
  have long: "l \<notin> whitelist_parent_fields iter self df"
    unfolding whitelist_parent_fields_eq [OF it]
    using root prefix_str_in [OF assms(4)] assms(5) by auto
  have kept: "\<forall>p \<in> set (flatten_schema (df_schema df)).
            str_in s p \<longrightarrow> p \<notin> snd (find_fields_to_drop iter self df)"
  proof (intro ballI impI)
    fix p assume "str_in s p"
    moreover from whitelist_parent_fields_cover [OF it assms(2)]
    obtain k where "k \<in> whitelist_parent_fields iter self df" "str_in k s" by blast
    ultimately have "\<exists>k \<in> whitelist_parent_fields iter self df. str_in k p"
      by (blast intro: str_in_trans)
    then show "p \<notin> snd (find_fields_to_drop iter self df)"
      by (simp add: snd_find_fields_to_drop [OF assms(1)])
  qed
  from root root_warning_logged [OF root] long kept show ?thesis by blast
qed

theorem C10_character_prefix_is_root_witness:
  "iterates_for iter_loose wl_loose df_loose \<and>
   ''ab'' \<in> set (only_existing_columns wl_loose df_loose) \<and>
   ''abc'' \<in> set (only_existing_columns wl_loose df_loose) \<and>
   prefix ''ab'' ''abc'' \<and>
   ''ab'' \<in> root_elements (only_existing_columns wl_loose df_loose) \<and>
   ''abc'' \<notin> whitelist_parent_fields iter_loose wl_loose df_loose \<and>
   ''xab'' \<notin> snd (find_fields_to_drop iter_loose wl_loose df_loose)"
proof -
  have h1: "iterates_for iter_loose wl_loose df_loose" by code_simp
  have h2: "''ab'' \<in> set (only_existing_columns wl_loose df_loose)" by code_simp
  have h3: "''abc'' \<in> set (only_existing_columns wl_loose df_loose)" by code_simp
  have h4: "prefix ''ab'' ''abc''" by simp
  have h5: "''ab'' \<noteq> ''abc''" by simp
  have h6: "''ab'' \<noteq> []" by simp
  have h7: "''xab'' \<in> set (flatten_schema (df_schema df_loose))" by code_simp
  have h8: "str_in ''ab'' ''xab''" by simp
  from C10_character_prefix_is_root [OF h1 h2 h3 h4 h5 h6] h1 h2 h3 h4 h7 h8 show ?thesis by blast
qed

end
